theory Spec2Isabelle
  imports Complex_Main "HOL-Library.Word"
begin

section \<open>Rate limiter (package handlers)\<close>

text \<open>
  Both revisions of the limiter in the repository have the same body.  The field
  \<open>maxRequests\<close> is a Go \<open>int\<close> in the earlier revision and a \<open>uint\<close> in the later
  one, where the comparison reads it through \<open>int(rl.maxRequests)\<close>; on a 64-bit
  platform both are the signed reading \<open>sint\<close> of the same 64-bit pattern.

  A \<open>time.Time\<close> obtained from \<open>time.Now()\<close> is represented by its monotonic clock
  reading in nanoseconds, a \<open>time.Duration\<close> by its number of nanoseconds.
\<close>

definition maxDuration :: int where
  "maxDuration = 2 ^ 63 - 1"

definition minDuration :: int where
  "minDuration = - (2 ^ 63)"

text \<open>\<open>Time.Sub\<close>: the difference, saturated to the range of \<open>Duration\<close>.\<close>

definition Sub :: "int \<Rightarrow> int \<Rightarrow> int" where
  "Sub t u =
     (let d = t - u
      in if maxDuration < d then maxDuration
         else if d < minDuration then minDuration
         else d)"

record RateLimiter =
  requests :: "string \<rightharpoonup> int list"
  maxRequests :: "64 word"
  timeWindow :: int

definition NewRateLimiter :: "64 word \<Rightarrow> int \<Rightarrow> RateLimiter" where
  "NewRateLimiter m w = \<lparr>requests = Map.empty, maxRequests = m, timeWindow = w\<rparr>"

text \<open>Reading a Go map at a missing key gives the zero value, here the nil slice.\<close>

definition requestsOf :: "RateLimiter \<Rightarrow> string \<Rightarrow> int list" where
  "requestsOf rl ip = (case requests rl ip of None \<Rightarrow> [] | Some ts \<Rightarrow> ts)"

text \<open>
  \<open>Allow\<close>, with the reading of the clock passed in as \<open>now\<close>.  The result is the
  returned boolean and the limiter after the call.
\<close>

definition Allow :: "RateLimiter \<Rightarrow> int \<Rightarrow> string \<Rightarrow> bool \<times> RateLimiter" where
  "Allow rl now ip =
     (let validRequests = filter (\<lambda>t. Sub now t \<le> timeWindow rl) (requestsOf rl ip);
          rl1 = rl\<lparr>requests := (requests rl)(ip \<mapsto> validRequests)\<rparr>
      in if sint (maxRequests rl) \<le> int (length validRequests) then (False, rl1)
         else (True, rl1\<lparr>requests := (requests rl1)(ip \<mapsto> requestsOf rl1 ip @ [now])\<rparr>))"

text \<open>A sequence of calls for one client, at the given clock readings.\<close>

fun AllowSeq :: "RateLimiter \<Rightarrow> string \<Rightarrow> int list \<Rightarrow> bool list \<times> RateLimiter" where
  "AllowSeq rl ip [] = ([], rl)"
| "AllowSeq rl ip (t # ts) =
     (let (b, rl1) = Allow rl t ip;
          (bs, rl2) = AllowSeq rl1 ip ts
      in (b # bs, rl2))"

text \<open>A sequence of calls for arbitrary clients: the limiter after them.\<close>

fun AllowAll :: "RateLimiter \<Rightarrow> (string \<times> int) list \<Rightarrow> RateLimiter" where
  "AllowAll rl [] = rl"
| "AllowAll rl ((ip, t) # cs) = AllowAll (snd (Allow rl t ip)) cs"


text \<open>
  A burst: every later call of the sequence is within the window \<open>W\<close> of every
  earlier one.
\<close>

fun laterWithin :: "int \<Rightarrow> int list \<Rightarrow> bool" where
  "laterWithin W [] = True"
| "laterWithin W (u # ts) = (list_all (\<lambda>v. Sub v u \<le> W) ts \<and> laterWithin W ts)"

section \<open>Strings (Go standard library)\<close>

text \<open>
  A Go string is a sequence of bytes, here a \<open>string\<close> whose characters are the bytes;
  \<open>len\<close> is \<open>length\<close> and \<open>s[:n]\<close> is \<open>take n s\<close>.  The library functions below
  read the bytes as UTF-8, so the decoder of package \<open>unicode/utf8\<close> comes first.
\<close>

definition RuneError :: nat where
  "RuneError = 0xFFFD"

text \<open>
  For a leading byte of a multi-byte sequence: the length of the sequence and the
  range accepted for the second byte (the tables \<open>first\<close> and \<open>acceptRanges\<close>).
\<close>

definition acceptRange :: "nat \<Rightarrow> (nat \<times> nat \<times> nat) option" where
  "acceptRange b0 =
     (if 0xC2 \<le> b0 \<and> b0 \<le> 0xDF then Some (2, 0x80, 0xBF)
      else if b0 = 0xE0 then Some (3, 0xA0, 0xBF)
      else if 0xE1 \<le> b0 \<and> b0 \<le> 0xEC then Some (3, 0x80, 0xBF)
      else if b0 = 0xED then Some (3, 0x80, 0x9F)
      else if b0 = 0xEE \<or> b0 = 0xEF then Some (3, 0x80, 0xBF)
      else if b0 = 0xF0 then Some (4, 0x90, 0xBF)
      else if 0xF1 \<le> b0 \<and> b0 \<le> 0xF3 then Some (4, 0x80, 0xBF)
      else if b0 = 0xF4 then Some (4, 0x80, 0x8F)
      else None)"

text \<open>\<open>utf8.DecodeRuneInString\<close>: the first rune and its width in bytes.\<close>

definition DecodeRuneInString :: "string \<Rightarrow> nat \<times> nat" where
  "DecodeRuneInString s =
     (case map of_char s of
        [] \<Rightarrow> (RuneError, 0)
      | b0 # bs \<Rightarrow>
          if b0 < 0x80 then (b0, 1)
          else (case acceptRange b0 of
                  None \<Rightarrow> (RuneError, 1)
                | Some (sz, lo, hi) \<Rightarrow>
                    if length bs + 1 < sz then (RuneError, 1)
                    else let b1 = bs ! 0
                      in if b1 < lo \<or> hi < b1 then (RuneError, 1)
                         else if sz \<le> 2 then ((b0 mod 32) * 64 + b1 mod 64, 2)
                         else let b2 = bs ! 1
                           in if b2 < 0x80 \<or> 0xBF < b2 then (RuneError, 1)
                              else if sz \<le> 3
                                then ((b0 mod 16) * 4096 + (b1 mod 64) * 64 + b2 mod 64, 3)
                              else let b3 = bs ! 2
                                in if b3 < 0x80 \<or> 0xBF < b3 then (RuneError, 1)
                                   else ((b0 mod 8) * 262144 + (b1 mod 64) * 4096
                                           + (b2 mod 64) * 64 + b3 mod 64, 4)))"

text \<open>\<open>utf8.RuneStart\<close>: the byte is not a continuation byte.\<close>

definition RuneStart :: "nat \<Rightarrow> bool" where
  "RuneStart b = (b div 64 \<noteq> 2)"

text \<open>
  \<open>utf8.DecodeLastRuneInString\<close>: the last rune and its width.  The loop walks back
  from the byte before the last one, over at most three bytes, to a byte that starts a
  rune; \<open>lastRuneStart\<close> is the value of \<open>start\<close> after it.
\<close>

definition lastRuneStart :: "string \<Rightarrow> int" where
  "lastRuneStart s =
     (let end = int (length s); lim = max 0 (end - 4)
      in case find (\<lambda>i. RuneStart (of_char (s ! nat i)))
                (filter (\<lambda>i. lim \<le> i) [end - 2, end - 3, end - 4]) of
           Some i \<Rightarrow> i
         | None \<Rightarrow> lim - 1)"

definition DecodeLastRuneInString :: "string \<Rightarrow> nat \<times> nat" where
  "DecodeLastRuneInString s =
     (if s = [] then (RuneError, 0)
      else let r = of_char (last s)
        in if r < 0x80 then (r, 1)
           else let start = nat (max 0 (lastRuneStart s));
                    (r, size) = DecodeRuneInString (drop start s)
             in if start + size \<noteq> length s then (RuneError, 1) else (r, size))"

text \<open>\<open>unicode.IsSpace\<close>.\<close>

definition IsSpace :: "nat \<Rightarrow> bool" where
  "IsSpace r =
     (r = 0x09 \<or> r = 0x0A \<or> r = 0x0B \<or> r = 0x0C \<or> r = 0x0D \<or> r = 0x20 \<or>
      r = 0x85 \<or> r = 0xA0 \<or> r = 0x1680 \<or> (0x2000 \<le> r \<and> r \<le> 0x200A) \<or>
      r = 0x2028 \<or> r = 0x2029 \<or> r = 0x202F \<or> r = 0x205F \<or> r = 0x3000)"

text \<open>\<open>strings.TrimSpace\<close>: white space runes are cut from the left, then from the right.\<close>

function trimLeftSpace :: "string \<Rightarrow> string" where
  "trimLeftSpace s =
     (if s = [] then []
      else let (r, w) = DecodeRuneInString s
        in if IsSpace r then trimLeftSpace (drop w s) else s)"
  by pat_completeness auto
termination
  apply (relation "measure length")
   apply simp
  apply (auto simp: DecodeRuneInString_def Let_def RuneError_def IsSpace_def
      split: list.splits option.splits if_splits prod.splits)
  done

function trimRightSpace :: "string \<Rightarrow> string" where
  "trimRightSpace s =
     (if s = [] then []
      else let (r, w) = DecodeLastRuneInString s
        in if IsSpace r then trimRightSpace (take (length s - w) s) else s)"
  by pat_completeness auto
termination
proof (relation "measure length")
  show "wf (measure length)" by simp
next
  fix s :: string and x :: "nat \<times> nat" and r w :: nat
  assume s: "s \<noteq> []" and x: "x = DecodeLastRuneInString s" "(r, w) = x" and sp: "IsSpace r"
  have "w \<noteq> 0"
  proof
    assume w: "w = 0"
    let ?st = "nat (max 0 (lastRuneStart s))"
    have "DecodeRuneInString (drop ?st s) = (r, 0) \<and> ?st = length s"
      using s x w
      by (auto simp: DecodeLastRuneInString_def Let_def split: if_splits prod.splits)
    then have d: "DecodeRuneInString (drop ?st s) = (r, 0)" and e: "?st = length s"
      by blast+
    have "drop ?st s = []"
      unfolding e by simp
    with d have "DecodeRuneInString [] = (r, 0)"
      by (simp only:)
    then have "r = RuneError"
      by (simp add: DecodeRuneInString_def)
    then show False using sp by (simp add: IsSpace_def RuneError_def)
  qed
  then show "(take (length s - w) s, s) \<in> measure length"
    using s by simp
qed

definition TrimSpace :: "string \<Rightarrow> string" where
  "TrimSpace s = trimRightSpace (trimLeftSpace s)"


declare trimLeftSpace.simps [simp del]
declare trimRightSpace.simps [simp del]

text \<open>
  \<open>strings.ToLower\<close>.  A string of ASCII bytes is lowered byte by byte.  Any other
  string goes through \<open>strings.Map(unicode.ToLower, s)\<close>, which depends on the case
  tables of package \<open>unicode\<close>; that mapping is the parameter \<open>mapLower\<close>.
\<close>

definition asciiLower :: "char \<Rightarrow> char" where
  "asciiLower c =
     (if (0x41::nat) \<le> of_char c \<and> of_char c \<le> (0x5A::nat)
      then char_of (of_char c + (0x20::nat)) else c)"

definition ToLower :: "(string \<Rightarrow> string) \<Rightarrow> string \<Rightarrow> string" where
  "ToLower mapLower s =
     (if list_all (\<lambda>c. of_char c < (0x80::nat)) s then map asciiLower s else mapLower s)"

section \<open>Sanitizer (package services)\<close>

text \<open>
  The repository holds two revisions of the service, told apart here by the logger
  they import: \<open>log/slog\<close> and \<open>go.uber.org/zap\<close>.

  The \<open>slog\<close> revision removes the characters of the class
  \<^verbatim>\<open>[<>{}[\];'"\\]\<close>, trims, and cuts at 200 bytes.
\<close>

definition specialChars :: "char list" where
  "specialChars =
     [CHR ''<'', CHR ''>'', CHR ''{'', CHR ''}'', CHR ''['', CHR '']'', CHR '';'',
      CHR 0x27, CHR 0x22, CHR 0x5C]"

definition sanitizeAddress_slog :: "string \<Rightarrow> string" where
  "sanitizeAddress_slog address =
     (let cleaned = filter (\<lambda>c. c \<notin> set specialChars) address;
          cleaned = TrimSpace cleaned
      in if 200 < length cleaned then take 200 cleaned else cleaned)"

text \<open>
  The \<open>zap\<close> revision trims, replaces every match of \<^verbatim>\<open>\s+\<close> by one space and
  removes every match of \<^verbatim>\<open>[^\w\s,.-]\<close>.  In the syntax of package \<open>regexp\<close> the
  class \<^verbatim>\<open>\s\<close> is \<^verbatim>\<open>[\t\n\f\r ]\<close> and \<^verbatim>\<open>\w\<close> is \<^verbatim>\<open>[0-9A-Za-z_]\<close>.  A rune outside
  ASCII, or a byte that is not valid UTF-8, is in neither, so each of its bytes is
  removed.
\<close>

definition perlSpace :: "char \<Rightarrow> bool" where
  "perlSpace c =
     (of_char c = (0x09::nat) \<or> of_char c = (0x0A::nat) \<or> of_char c = (0x0C::nat) \<or>
      of_char c = (0x0D::nat) \<or> of_char c = (0x20::nat))"

definition perlWord :: "char \<Rightarrow> bool" where
  "perlWord c =
     (((0x30::nat) \<le> of_char c \<and> of_char c \<le> (0x39::nat)) \<or>
      ((0x41::nat) \<le> of_char c \<and> of_char c \<le> (0x5A::nat)) \<or>
      ((0x61::nat) \<le> of_char c \<and> of_char c \<le> (0x7A::nat)) \<or>
      c = CHR ''_'')"

fun collapseSpaces :: "bool \<Rightarrow> string \<Rightarrow> string" where
  "collapseSpaces inRun [] = []"
| "collapseSpaces inRun (c # cs) =
     (if perlSpace c
      then (if inRun then collapseSpaces True cs else CHR '' '' # collapseSpaces True cs)
      else c # collapseSpaces False cs)"

definition allowed :: "char \<Rightarrow> bool" where
  "allowed c = (perlWord c \<or> perlSpace c \<or> c = CHR '','' \<or> c = CHR ''.'' \<or> c = CHR ''-'')"

definition sanitizeAddress_zap :: "string \<Rightarrow> string" where
  "sanitizeAddress_zap address =
     (let address = TrimSpace address;
          address = collapseSpaces False address;
          address = filter allowed address
      in address)"

section \<open>Threat detector (\<open>slog\<close> revision)\<close>

text \<open>
  The pattern of \<open>isSuspicious\<close>, as its syntax tree:
  \<^verbatim>\<open>(?i)((.)\2{5}|0x[0-9a-f]+|select\s.+\sfrom|script|alert\(|function|var\s|let\s|const\s)\<close>
\<close>

datatype regex =
    Str string
  | AnyChar
  | Class "(char \<times> char) list"
  | PerlSpace
  | Cat regex regex
  | Alt regex regex
  | Plus regex
  | Repeat regex nat
  | Group regex
  | Backref nat
  | FoldCase regex

definition suspiciousPattern :: regex where
  "suspiciousPattern =
     FoldCase (Group
       (Alt (Cat (Group AnyChar) (Repeat (Backref 2) 5))
       (Alt (Cat (Str ''0x'') (Plus (Class [(CHR ''0'', CHR ''9''), (CHR ''a'', CHR ''f'')])))
       (Alt (Cat (Str ''select'') (Cat PerlSpace (Cat (Plus AnyChar) (Cat PerlSpace (Str ''from'')))))
       (Alt (Str ''script'')
       (Alt (Str ''alert('')
       (Alt (Str ''function'')
       (Alt (Cat (Str ''var'') PerlSpace)
       (Alt (Cat (Str ''let'') PerlSpace)
            (Cat (Str ''const'') PerlSpace))))))))))"

text \<open>
  Package \<open>regexp\<close> implements the RE2 syntax, which has no backreferences: the parser
  rejects the escape \<^verbatim>\<open>\2\<close> (``invalid escape sequence'').
\<close>

fun hasBackref :: "regex \<Rightarrow> bool" where
  "hasBackref (Backref n) = True"
| "hasBackref (Cat r1 r2) = (hasBackref r1 \<or> hasBackref r2)"
| "hasBackref (Alt r1 r2) = (hasBackref r1 \<or> hasBackref r2)"
| "hasBackref (Plus r) = hasBackref r"
| "hasBackref (Repeat r n) = hasBackref r"
| "hasBackref (Group r) = hasBackref r"
| "hasBackref (FoldCase r) = hasBackref r"
| "hasBackref r = False"

text \<open>A call either returns a value or panics.\<close>

datatype 'a outcome = Panic string | Return 'a

text \<open>\<open>regexp.MustCompile\<close> panics when the pattern does not parse.\<close>

definition MustCompile :: "regex \<Rightarrow> regex outcome" where
  "MustCompile re =
     (if hasBackref re then Panic ''regexp: Compile: error parsing regexp: invalid escape sequence''
      else Return re)"

text \<open>
  \<open>isSuspicious\<close>.  The matching engine of package \<open>regexp\<close> is the parameter
  \<open>MatchString\<close>.
\<close>

definition isSuspicious :: "(regex \<Rightarrow> string \<Rightarrow> bool) \<Rightarrow> string \<Rightarrow> bool outcome" where
  "isSuspicious MatchString address =
     (case MustCompile suspiciousPattern of
        Panic msg \<Rightarrow> Panic msg
      | Return re \<Rightarrow> Return (MatchString re address))"


section \<open>Geofence evaluator (package services)\<close>

text \<open>
  The \<open>float64\<close> arithmetic of the source is taken over the real numbers: rounding,
  infinities and NaN are outside this embedding.
\<close>

definition earthRadiusKm :: real where
  "earthRadiusKm = 6371.0"

definition earthRadiusMi :: real where
  "earthRadiusMi = 3958.8"

definition DISTANCE_MILES :: string where
  "DISTANCE_MILES = ''mi''"

text \<open>\<open>math.Atan2\<close> on real arguments.\<close>

definition Atan2 :: "real \<Rightarrow> real \<Rightarrow> real" where
  "Atan2 y x =
     (if y = 0 then (if 0 \<le> x then 0 else pi)
      else if x = 0 then (if 0 < y then pi / 2 else - (pi / 2))
      else let q = arctan (y / x)
        in if x < 0 then (if q \<le> 0 then q + pi else q - pi) else q)"

text \<open>
  \<open>calculateDistance\<close> of package \<open>services\<close>, the same in both revisions (the
  \<open>slog\<close> revision writes the literal \<open>"mi"\<close> for \<open>ports.DISTANCE_MILES\<close>).
\<close>

definition calculateDistance ::
    "(string \<Rightarrow> string) \<Rightarrow> real \<Rightarrow> real \<Rightarrow> real \<Rightarrow> real \<Rightarrow> string \<Rightarrow> real" where
  "calculateDistance mapLower lat1 lng1 lat2 lng2 unit =
     (let lat1Rad = lat1 * (pi / 180.0);
          lng1Rad = lng1 * (pi / 180.0);
          lat2Rad = lat2 * (pi / 180.0);
          lng2Rad = lng2 * (pi / 180.0);
          dLat = lat2Rad - lat1Rad;
          dLng = lng2Rad - lng1Rad;
          a = sin (dLat / 2) * sin (dLat / 2)
                + cos lat1Rad * cos lat2Rad * sin (dLng / 2) * sin (dLng / 2);
          c = 2 * Atan2 (sqrt a) (sqrt (1 - a))
      in if ToLower mapLower unit = DISTANCE_MILES then earthRadiusMi * c
         else earthRadiusKm * c)"



section \<open>Validation orchestrator (package services)\<close>

record AddressValidationResult =
  IsValid :: bool
  FormattedAddress :: string
  Latitude :: real
  Longitude :: real
  InRange :: bool
  Error :: string

datatype error = ErrEmptyAddress | ErrSuspiciousPattern | ErrOutsideGeofence | ValidatorError string

definition error_Error :: "error \<Rightarrow> string" where
  "error_Error e =
     (case e of
        ErrEmptyAddress \<Rightarrow> ''address is empty''
      | ErrSuspiciousPattern \<Rightarrow> ''suspicious address detected''
      | ErrOutsideGeofence \<Rightarrow> ''address outside allowed geographic area''
      | ValidatorError msg \<Rightarrow> msg)"

text \<open>The zero value of the result struct, with the two fields the service sets.\<close>

definition failed :: "error \<Rightarrow> AddressValidationResult" where
  "failed e =
     \<lparr>IsValid = False, FormattedAddress = [], Latitude = 0, Longitude = 0,
      InRange = False, Error = error_Error e\<rparr>"

text \<open>
  The interface \<open>ports.AddressValidator\<close>: the external geocoding capability, a
  function of the address it is given.
\<close>

type_synonym AddressValidator = "string \<Rightarrow> AddressValidationResult \<times> error option"

text \<open>
  What a call of the service gives: the addresses the validator was invoked with, and
  the returned pair or the panic.
\<close>

type_synonym validation = "string list \<times> (AddressValidationResult \<times> error option) outcome"

subsection \<open>\<open>slog\<close> revision\<close>

record GeofenceConfig =
  MaxDistance :: real
  DistanceUnit :: string
  CenterLat :: real
  CenterLng :: real

record AddressService_slog =
  validator_slog :: AddressValidator
  Geofence :: GeofenceConfig

definition isWithinGeofence ::
    "(string \<Rightarrow> string) \<Rightarrow> AddressService_slog \<Rightarrow> real \<Rightarrow> real \<Rightarrow> bool" where
  "isWithinGeofence mapLower s lat lng =
     (let distance = calculateDistance mapLower lat lng
                       (CenterLat (Geofence s)) (CenterLng (Geofence s))
                       (DistanceUnit (Geofence s))
      in distance \<le> MaxDistance (Geofence s))"

definition ValidateAddress_slog ::
    "(regex \<Rightarrow> string \<Rightarrow> bool) \<Rightarrow> (string \<Rightarrow> string) \<Rightarrow> AddressService_slog \<Rightarrow> string
       \<Rightarrow> validation" where
  "ValidateAddress_slog MatchString mapLower s address =
     (let cleanAddress = sanitizeAddress_slog address
      in if cleanAddress = [] then ([], Return (failed ErrEmptyAddress, Some ErrEmptyAddress))
         else (case isSuspicious MatchString cleanAddress of
                 Panic msg \<Rightarrow> ([], Panic msg)
               | Return True \<Rightarrow>
                   ([], Return (failed ErrSuspiciousPattern, Some ErrSuspiciousPattern))
               | Return False \<Rightarrow>
                   (let (result, err) = validator_slog s cleanAddress
                    in if err \<noteq> None then ([cleanAddress], Return (result, err))
                       else if IsValid result
                         then (let inRange = isWithinGeofence mapLower s
                                               (Latitude result) (Longitude result)
                               in ([cleanAddress],
                                   Return (result\<lparr>InRange := inRange\<rparr>, None)))
                       else ([cleanAddress], Return (result, None)))))"

subsection \<open>\<open>zap\<close> revision\<close>

record MapConfig =
  GoogleMapsAPIKey :: string
  MaxDistance_zap :: real
  DistanceUnit_zap :: string
  CenterLat_zap :: real
  CenterLng_zap :: real
  Country :: string
  Locality :: string

record AddressService_zap =
  validator_zap :: AddressValidator
  config_zap :: MapConfig

definition ValidateAddress_zap ::
    "(string \<Rightarrow> string) \<Rightarrow> AddressService_zap \<Rightarrow> string \<Rightarrow> validation" where
  "ValidateAddress_zap mapLower s address =
     (let cleanAddress = sanitizeAddress_zap address
      in if cleanAddress = [] \<or> cleanAddress = '' ''
         then ([], Return (failed ErrEmptyAddress, Some ErrEmptyAddress))
         else (let (result, err) = validator_zap s cleanAddress
               in if err \<noteq> None then ([cleanAddress], Return (result, err))
                  else if IsValid result
                    then (let distance = calculateDistance mapLower
                                           (Latitude result) (Longitude result)
                                           (CenterLat_zap (config_zap s))
                                           (CenterLng_zap (config_zap s))
                                           (DistanceUnit_zap (config_zap s))
                          in ([cleanAddress],
                              Return (result\<lparr>InRange := distance \<le> MaxDistance_zap (config_zap s)\<rparr>,
                                      None)))
                  else ([cleanAddress], Return (result, None))))"


section \<open>Properties of the rate limiter\<close>

lemma Sub_mono_left: "t \<le> t' \<Longrightarrow> Sub t u \<le> Sub t' u"
  by (auto simp: Sub_def Let_def maxDuration_def minDuration_def)

lemma Sub_mono_right: "u \<le> u' \<Longrightarrow> Sub t u' \<le> Sub t u"
  by (auto simp: Sub_def Let_def maxDuration_def minDuration_def)

lemma Allow_fst:
  "fst (Allow rl now ip) \<longleftrightarrow>
     int (length (filter (\<lambda>t. Sub now t \<le> timeWindow rl) (requestsOf rl ip)))
       < sint (maxRequests rl)"
  by (auto simp: Allow_def Let_def)

lemma Allow_requests:
  "requests (snd (Allow rl now ip)) =
     (requests rl)(ip \<mapsto>
       (let v = filter (\<lambda>t. Sub now t \<le> timeWindow rl) (requestsOf rl ip)
        in if sint (maxRequests rl) \<le> int (length v) then v else v @ [now]))"
  by (auto simp: Allow_def Let_def requestsOf_def)

lemma Allow_maxRequests: "maxRequests (snd (Allow rl now ip)) = maxRequests rl"
  by (simp add: Allow_def Let_def)

lemma Allow_timeWindow: "timeWindow (snd (Allow rl now ip)) = timeWindow rl"
  by (simp add: Allow_def Let_def)

lemma requestsOf_Allow:
  "requestsOf (snd (Allow rl now ip)) ip' =
     (if ip' = ip
      then (let v = filter (\<lambda>t. Sub now t \<le> timeWindow rl) (requestsOf rl ip)
            in if sint (maxRequests rl) \<le> int (length v) then v else v @ [now])
      else requestsOf rl ip')"
  by (simp add: requestsOf_def Allow_requests)

lemma AllowSeq_fields:
  "maxRequests (snd (AllowSeq rl ip ts)) = maxRequests rl \<and>
   timeWindow (snd (AllowSeq rl ip ts)) = timeWindow rl"
proof (induction ts arbitrary: rl)
  case Nil
  show ?case by simp
next
  case (Cons u ts)
  obtain b rl1 where A: "Allow rl u ip = (b, rl1)" by (cases "Allow rl u ip")
  obtain bs rl2 where S: "AllowSeq rl1 ip ts = (bs, rl2)" by (cases "AllowSeq rl1 ip ts")
  have "maxRequests rl1 = maxRequests rl" "timeWindow rl1 = timeWindow rl"
    using Allow_maxRequests[of rl u ip] Allow_timeWindow[of rl u ip] A by simp_all
  moreover have "maxRequests rl2 = maxRequests rl1" "timeWindow rl2 = timeWindow rl1"
    using Cons.IH[of rl1] S by simp_all
  ultimately show ?case using A S by simp
qed

lemma filter_fixed: "filter P xs = ys \<Longrightarrow> filter P ys = ys"
  by auto

text \<open>
  A burst met by a limiter whose client has the admitted timestamps \<open>adm\<close> in the
  window: the calls are admitted until the sequence holds \<open>M\<close> timestamps, and
  rejected from then on.
\<close>

lemma AllowSeq_burst:
  assumes "sint (maxRequests rl) = int M"
    and "list_all (\<lambda>u. filter (\<lambda>t. Sub u t \<le> timeWindow rl) (requestsOf rl ip) = adm) ts"
    and "laterWithin (timeWindow rl) ts"
    and "length adm \<le> M"
    and "ts \<noteq> []"
  shows "fst (AllowSeq rl ip ts) =
           replicate (min (length ts) (M - length adm)) True @
           replicate (length ts - (M - length adm)) False
         \<and> requestsOf (snd (AllowSeq rl ip ts)) ip = adm @ take (M - length adm) ts"
  using assms
proof (induction ts arbitrary: rl adm)
  case Nil
  then show ?case by simp
next
  case (Cons u ts)
  let ?W = "timeWindow rl"
  obtain b rl1 where A: "Allow rl u ip = (b, rl1)" by (cases "Allow rl u ip")
  have v: "filter (\<lambda>t. Sub u t \<le> ?W) (requestsOf rl ip) = adm"
    using Cons.prems(2) by simp
  let ?adm1 = "if M \<le> length adm then adm else adm @ [u]"
  have b: "b \<longleftrightarrow> length adm < M"
    using Allow_fst[of rl u ip] A v Cons.prems(1) by auto
  have st: "requestsOf rl1 ip = ?adm1"
    using requestsOf_Allow[of rl u ip ip] A v Cons.prems(1) by (auto simp: Let_def)
  have m1: "sint (maxRequests rl1) = int M"
    using Allow_maxRequests[of rl u ip] A Cons.prems(1) by simp
  have w1: "timeWindow rl1 = ?W"
    using Allow_timeWindow[of rl u ip] A by simp
  show ?case
  proof (cases "ts = []")
    case True
    then show ?thesis using A b st Cons.prems(4) by (auto simp: min_def)
  next
    case False
    have keep: "list_all (\<lambda>v. filter (\<lambda>t. Sub v t \<le> timeWindow rl1) (requestsOf rl1 ip) = ?adm1) ts"
      unfolding list_all_iff
    proof
      fix x assume x: "x \<in> set ts"
      have "filter (\<lambda>t. Sub x t \<le> ?W) (requestsOf rl ip) = adm"
        using Cons.prems(2) x by (simp add: list_all_iff)
      then have f: "filter (\<lambda>t. Sub x t \<le> ?W) adm = adm" by (rule filter_fixed)
      have "Sub x u \<le> ?W" using Cons.prems(3) x by (simp add: list_all_iff)
      then show "filter (\<lambda>t. Sub x t \<le> timeWindow rl1) (requestsOf rl1 ip) = ?adm1"
        using f st w1 by simp
    qed
    have lw: "laterWithin (timeWindow rl1) ts" using Cons.prems(3) w1 by simp
    have len: "length ?adm1 \<le> M" using Cons.prems(4) by auto
    note IH = Cons.IH[OF m1 keep lw len False]
    obtain bs rl2 where S: "AllowSeq rl1 ip ts = (bs, rl2)" by (cases "AllowSeq rl1 ip ts")
    have res: "AllowSeq rl ip (u # ts) = (b # bs, rl2)" using A S by simp
    show ?thesis
    proof (cases "length adm < M")
      case True
      then have "M - length adm = Suc (M - length (adm @ [u]))" by simp
      then show ?thesis using IH S res b True
        by (simp add: min_def)
    next
      case F: False
      then have "M - length adm = 0" by simp
      then show ?thesis using IH S res b F Cons.prems(4)
        by (simp add: replicate_app_Cons_same)
    qed
  qed
qed

lemma sint_of_nat_small: "N < 2 ^ 63 \<Longrightarrow> sint (word_of_nat N :: 64 word) = int N"
  by (simp add: signed_of_nat signed_take_bit_int_eq_self)

lemma sorted_le_last: "sorted xs \<Longrightarrow> x \<in> set xs \<Longrightarrow> x \<le> last xs"
  by (induction xs) (auto split: if_splits)

lemma sorted_hd_le: "sorted xs \<Longrightarrow> x \<in> set xs \<Longrightarrow> hd xs \<le> x"
  by (cases xs) auto

lemma sorted_laterWithin:
  "sorted (t0 # ts) \<Longrightarrow> list_all (\<lambda>v. Sub v t0 \<le> W) ts \<Longrightarrow> laterWithin W ts"
proof (induction ts)
  case Nil
  then show ?case by simp
next
  case (Cons u ts)
  have "list_all (\<lambda>v. Sub v u \<le> W) ts"
    unfolding list_all_iff
  proof
    fix v assume v: "v \<in> set ts"
    have "t0 \<le> u" using Cons.prems(1) by simp
    then have "Sub v u \<le> Sub v t0" by (rule Sub_mono_right)
    moreover have "Sub v t0 \<le> W" using Cons.prems(2) v by (simp add: list_all_iff)
    ultimately show "Sub v u \<le> W" by simp
  qed
  moreover have "laterWithin W ts" using Cons by auto
  ultimately show ?case by simp
qed

lemma sorted_within:
  assumes "sorted ts" "ts \<noteq> []" "Sub (last ts) (hd ts) \<le> W"
  shows "laterWithin W ts"
proof -
  obtain t0 tl where ts: "ts = t0 # tl" using assms(2) by (cases ts) auto
  have "list_all (\<lambda>v. Sub v t0 \<le> W) tl"
    unfolding list_all_iff
  proof
    fix v assume v: "v \<in> set tl"
    then have "v \<le> last ts" using assms(1) ts sorted_le_last[of ts v] by simp
    then have "Sub v t0 \<le> Sub (last ts) t0" by (rule Sub_mono_left)
    then show "Sub v t0 \<le> W" using assms(3) ts by simp
  qed
  then show ?thesis using sorted_laterWithin[of t0 tl W] assms(1) ts by simp
qed


text \<open>
  Claim C1.  With \<open>maxRequests = N\<close>, a burst of \<open>N + 1\<close> calls of \<open>Allow\<close> for one
  client, all within one \<open>timeWindow\<close>, met by a limiter that holds no timestamp of
  that client inside the window: the first \<open>N\<close> calls return true and the last one
  false, so exactly \<open>N\<close> calls are admitted.  Once the window has elapsed since the
  admitted calls, a further call returns true.
\<close>

theorem Allow_burst_then_window:
  assumes N: "maxRequests rl = word_of_nat N" "0 < N" "N < 2 ^ 63"
    and burst: "length ts = Suc N" "sorted ts" "Sub (last ts) (hd ts) \<le> timeWindow rl"
    and fresh: "list_all (\<lambda>t. timeWindow rl < Sub (hd ts) t) (requestsOf rl ip)"
    and elapsed: "list_all (\<lambda>t. timeWindow rl < Sub now t) (take N ts)"
  shows "fst (AllowSeq rl ip ts) = replicate N True @ [False]
         \<and> length (filter (\<lambda>b. b) (fst (AllowSeq rl ip ts))) = N
         \<and> length (filter Not (fst (AllowSeq rl ip ts))) = 1
         \<and> fst (Allow (snd (AllowSeq rl ip ts)) now ip)"
proof -
  let ?W = "timeWindow rl"
  have ne: "ts \<noteq> []" using burst(1) by auto
  have M: "sint (maxRequests rl) = int N" using N by (simp add: sint_of_nat_small)
  have old: "list_all (\<lambda>u. filter (\<lambda>t. Sub u t \<le> ?W) (requestsOf rl ip) = []) ts"
    unfolding list_all_iff
  proof
    fix u assume u: "u \<in> set ts"
    have "\<forall>t\<in>set (requestsOf rl ip). \<not> Sub u t \<le> ?W"
    proof
      fix t assume t: "t \<in> set (requestsOf rl ip)"
      have "?W < Sub (hd ts) t" using fresh t by (simp add: list_all_iff)
      moreover have "Sub (hd ts) t \<le> Sub u t"
        using sorted_hd_le[OF burst(2) u] by (rule Sub_mono_left)
      ultimately show "\<not> Sub u t \<le> ?W" by simp
    qed
    then show "filter (\<lambda>t. Sub u t \<le> ?W) (requestsOf rl ip) = []"
      by (simp add: filter_empty_conv)
  qed
  have lw: "laterWithin ?W ts" using sorted_within[OF burst(2) ne burst(3)] .
  have B: "fst (AllowSeq rl ip ts) = replicate N True @ [False]"
          "requestsOf (snd (AllowSeq rl ip ts)) ip = take N ts"
    using AllowSeq_burst[OF M old lw _ ne] burst(1) by (simp_all add: min_def)
  let ?rl' = "snd (AllowSeq rl ip ts)"
  have f: "maxRequests ?rl' = maxRequests rl" "timeWindow ?rl' = ?W"
    using AllowSeq_fields[of rl ip ts] by simp_all
  have "filter (\<lambda>t. Sub now t \<le> ?W) (take N ts) = []"
    using elapsed by (auto simp: filter_empty_conv list_all_iff)
  then have last: "fst (Allow ?rl' now ip)"
    using Allow_fst[of ?rl' now ip] B(2) f M N(2) by simp
  show ?thesis using B(1) last by simp
qed

theorem Allow_burst_then_window_witness:
  "fst (AllowSeq (NewRateLimiter 2 10) ''c'' [0, 4, 9]) = [True, True, False]
   \<and> fst (Allow (snd (AllowSeq (NewRateLimiter 2 10) ''c'' [0, 4, 9])) 20 ''c'')"
proof -
  let ?rl = "NewRateLimiter 2 10"
  have h1: "maxRequests ?rl = word_of_nat 2" "0 < (2::nat)" "(2::nat) < 2 ^ 63"
    by (simp_all add: NewRateLimiter_def)
  have h2: "length [0, 4, 9 :: int] = Suc 2" "sorted [0, 4, 9 :: int]"
    "Sub (last [0, 4, 9]) (hd [0, 4, 9]) \<le> timeWindow ?rl"
    by (simp_all add: NewRateLimiter_def Sub_def maxDuration_def minDuration_def)
  have h3: "list_all (\<lambda>t. timeWindow ?rl < Sub (hd [0, 4, 9]) t) (requestsOf ?rl ''c'')"
    by (simp add: NewRateLimiter_def requestsOf_def)
  have h4: "list_all (\<lambda>t. timeWindow ?rl < Sub 20 t) (take 2 [0, 4, 9])"
    by (simp add: NewRateLimiter_def Sub_def maxDuration_def minDuration_def numeral_2_eq_2)
  have "replicate 2 True @ [False] = [True, True, False]"
    by (simp add: numeral_2_eq_2)
  with Allow_burst_then_window [OF h1 h2 h3 h4] show ?thesis
    by (simp del: AllowSeq.simps)
qed

text \<open>
  Claim C5.  A call of \<open>Allow\<close> prunes the client's timestamps older than
  \<open>timeWindow\<close> and stores the pruned sequence.  It returns false exactly when the
  pruned sequence holds at least \<open>maxRequests\<close> timestamps (\<open>maxRequests\<close> as the \<open>int\<close>
  the source compares with; as the unsigned field of the later revision too, when
  that is below \<open>2^63\<close>).  On false the stored sequence is the pruned one, on true the
  pruned one followed by the current timestamp; nothing else of the limiter changes.
\<close>

theorem Allow_prune_check_append:
  "(let valid = filter (\<lambda>t. Sub now t \<le> timeWindow rl) (requestsOf rl ip);
        (ok, rl') = Allow rl now ip
    in (\<not> ok \<longleftrightarrow> sint (maxRequests rl) \<le> int (length valid))
       \<and> (unat (maxRequests rl) < 2 ^ 63 \<longrightarrow>
            (\<not> ok \<longleftrightarrow> unat (maxRequests rl) \<le> length valid))
       \<and> (\<not> ok \<longrightarrow> requests rl' = (requests rl)(ip \<mapsto> valid))
       \<and> (ok \<longrightarrow> requests rl' = (requests rl)(ip \<mapsto> valid @ [now]))
       \<and> maxRequests rl' = maxRequests rl \<and> timeWindow rl' = timeWindow rl)"
proof -
  let ?valid = "filter (\<lambda>t. Sub now t \<le> timeWindow rl) (requestsOf rl ip)"
  obtain ok rl' where A: "Allow rl now ip = (ok, rl')" by (cases "Allow rl now ip")
  have ok: "\<not> ok \<longleftrightarrow> sint (maxRequests rl) \<le> int (length ?valid)"
    using Allow_fst[of rl now ip] A by auto
  have u: "sint (maxRequests rl) = int (unat (maxRequests rl))"
    if "unat (maxRequests rl) < 2 ^ 63"
  proof -
    have "sint (word_of_nat (unat (maxRequests rl)) :: 64 word) = int (unat (maxRequests rl))"
      using that by (rule sint_of_nat_small)
    then show ?thesis by simp
  qed
  have ok2: "\<not> ok \<longleftrightarrow> unat (maxRequests rl) \<le> length ?valid"
    if "unat (maxRequests rl) < 2 ^ 63"
  proof -
    have "sint (maxRequests rl) \<le> int (length ?valid)
            \<longleftrightarrow> int (unat (maxRequests rl)) \<le> int (length ?valid)"
      using u[OF that] by (simp only:)
    then show ?thesis using ok by (simp only: of_nat_le_iff)
  qed
  have rq: "requests rl' =
      (requests rl)(ip \<mapsto> (if sint (maxRequests rl) \<le> int (length ?valid) then ?valid
                            else ?valid @ [now]))"
    using Allow_requests[of rl now ip] A by (simp add: Let_def)
  have f: "maxRequests rl' = maxRequests rl" "timeWindow rl' = timeWindow rl"
    using Allow_maxRequests[of rl now ip] Allow_timeWindow[of rl now ip] A by simp_all
  show ?thesis
    unfolding Let_def A prod.case using ok ok2 rq f by auto
qed


theorem Allow_prune_check_append_witness:
  "fst (Allow \<lparr>requests = [''c'' \<mapsto> [0, 50, 60]], maxRequests = 2, timeWindow = 10\<rparr> 65 ''c'')
   \<and> requests (snd (Allow \<lparr>requests = [''c'' \<mapsto> [0, 50, 60]], maxRequests = 2, timeWindow = 10\<rparr>
                  65 ''c'')) ''c'' = Some [60, 65]
   \<and> \<not> fst (Allow \<lparr>requests = [''c'' \<mapsto> [0, 50, 60]], maxRequests = 1, timeWindow = 10\<rparr> 65 ''c'')
   \<and> requests (snd (Allow \<lparr>requests = [''c'' \<mapsto> [0, 50, 60]], maxRequests = 1, timeWindow = 10\<rparr>
                  65 ''c'')) ''c'' = Some [60]"
  using Allow_prune_check_append
          [of 65 "\<lparr>requests = [''c'' \<mapsto> [0, 50, 60]], maxRequests = 2, timeWindow = 10\<rparr>" "''c''"]
        Allow_prune_check_append
          [of 65 "\<lparr>requests = [''c'' \<mapsto> [0, 50, 60]], maxRequests = 1, timeWindow = 10\<rparr>" "''c''"]
  by (simp add: Let_def split_beta requestsOf_def Sub_def maxDuration_def minDuration_def)

lemma Allow_length_bound:
  assumes "sint (maxRequests rl) = int N" "length (requestsOf rl ip') \<le> N"
  shows "length (requestsOf (snd (Allow rl now ip)) ip') \<le> N"
proof -
  let ?v = "filter (\<lambda>t. Sub now t \<le> timeWindow rl) (requestsOf rl ip)"
  show ?thesis
  proof (cases "ip' = ip")
    case True
    have "length ?v \<le> length (requestsOf rl ip)" by (rule length_filter_le)
    then have "length ?v \<le> N" using assms(2) True by (rule_tac le_trans) auto
    then show ?thesis
      using assms(1) True by (auto simp: requestsOf_Allow Let_def)
  next
    case False
    then show ?thesis using assms(2) by (simp add: requestsOf_Allow)
  qed
qed

lemma AllowAll_length_bound:
  assumes "sint (maxRequests rl) = int N" "\<And>ip'. length (requestsOf rl ip') \<le> N"
  shows "length (requestsOf (AllowAll rl cs) ip) \<le> N"
  using assms
proof (induction cs arbitrary: rl)
  case Nil
  then show ?case by simp
next
  case (Cons c cs)
  obtain ip0 t where c: "c = (ip0, t)" by (cases c)
  let ?rl1 = "snd (Allow rl t ip0)"
  have "sint (maxRequests ?rl1) = int N" using Cons.prems(1) by (simp add: Allow_maxRequests)
  moreover have "\<And>ip'. length (requestsOf ?rl1 ip') \<le> N"
    using Allow_length_bound[OF Cons.prems(1)] Cons.prems(2) by simp
  ultimately show ?case using Cons.IH[of ?rl1] c by simp
qed

text \<open>
  Claim C8.  Starting from the empty mapping of \<open>NewRateLimiter\<close>, with
  \<open>maxRequests = N\<close>, after any sequence of calls of \<open>Allow\<close> (any clients, any clock
  readings) the stored sequence of every client has at most \<open>N\<close> timestamps.
\<close>

theorem requests_length_bounded:
  assumes "m = word_of_nat N" "N < 2 ^ 63"
  shows "length (requestsOf (AllowAll (NewRateLimiter m w) cs) ip) \<le> N
         \<and> (\<forall>ts. requests (AllowAll (NewRateLimiter m w) cs) ip = Some ts \<longrightarrow> length ts \<le> N)"
proof -
  have "sint (maxRequests (NewRateLimiter m w)) = int N"
    using assms by (simp add: NewRateLimiter_def sint_of_nat_small)
  moreover have "\<And>ip'. length (requestsOf (NewRateLimiter m w) ip') \<le> N"
    by (simp add: NewRateLimiter_def requestsOf_def)
  ultimately have "length (requestsOf (AllowAll (NewRateLimiter m w) cs) ip) \<le> N"
    by (rule AllowAll_length_bound)
  then show ?thesis by (auto simp: requestsOf_def)
qed

theorem requests_length_bounded_witness:
  "length (requestsOf
     (AllowAll (NewRateLimiter 2 10) [(''c'', 0), (''d'', 1), (''c'', 2), (''c'', 3), (''c'', 30)])
     ''c'') \<le> 2"
proof -
  have "(2 :: 64 word) = word_of_nat 2" "(2 :: nat) < 2 ^ 63" by simp_all
  from requests_length_bounded [OF this] show ?thesis by blast
qed

text \<open>
  Claim C9.  A call of \<open>Allow\<close> for one client leaves the mapping entry of every
  other client as it was.
\<close>

theorem Allow_frame:
  "ip' \<noteq> ip \<Longrightarrow> requests (snd (Allow rl now ip)) ip' = requests rl ip'"
  by (simp add: Allow_requests)

theorem Allow_frame_witness:
  "requests (snd (Allow \<lparr>requests = [''d'' \<mapsto> [1, 2]], maxRequests = 2, timeWindow = 10\<rparr>
               65 ''c'')) ''d'' = Some [1, 2]"
  using Allow_frame [of "''d''" "''c''"
          "\<lparr>requests = [''d'' \<mapsto> [1, 2]], maxRequests = 2, timeWindow = 10\<rparr>" 65]
  by simp


section \<open>Properties of the sanitizers\<close>

lemma set_trimLeftSpace: "set (trimLeftSpace s) \<subseteq> set s"
proof (induction s rule: trimLeftSpace.induct)
  case (1 s)
  show ?case
  proof (cases "s = []")
    case True
    then show ?thesis by (subst trimLeftSpace.simps) simp
  next
    case False
    obtain r w where d: "DecodeRuneInString s = (r, w)" by (cases "DecodeRuneInString s")
    show ?thesis
    proof (cases "IsSpace r")
      case True
      have "set (trimLeftSpace (drop w s)) \<subseteq> set (drop w s)"
        using "1.IH"[OF False d[symmetric] refl True] .
      moreover have "set (drop w s) \<subseteq> set s" by (rule set_drop_subset)
      moreover have "trimLeftSpace s = trimLeftSpace (drop w s)"
        using False d True by (subst trimLeftSpace.simps) simp
      ultimately show ?thesis by auto
    next
      case F: False
      have "trimLeftSpace s = s"
        using False d F by (subst trimLeftSpace.simps) simp
      then show ?thesis by simp
    qed
  qed
qed

lemma set_trimRightSpace: "set (trimRightSpace s) \<subseteq> set s"
proof (induction s rule: trimRightSpace.induct)
  case (1 s)
  show ?case
  proof (cases "s = []")
    case True
    then show ?thesis by (subst trimRightSpace.simps) simp
  next
    case False
    obtain r w where d: "DecodeLastRuneInString s = (r, w)"
      by (cases "DecodeLastRuneInString s")
    show ?thesis
    proof (cases "IsSpace r")
      case True
      have "set (trimRightSpace (take (length s - w) s)) \<subseteq> set (take (length s - w) s)"
        using "1.IH"[OF False d[symmetric] refl True] .
      moreover have "set (take (length s - w) s) \<subseteq> set s" by (rule set_take_subset)
      moreover have "trimRightSpace s = trimRightSpace (take (length s - w) s)"
        using False d True by (subst trimRightSpace.simps) simp
      ultimately show ?thesis by auto
    next
      case F: False
      have "trimRightSpace s = s"
        using False d F by (subst trimRightSpace.simps) simp
      then show ?thesis by simp
    qed
  qed
qed

lemma set_TrimSpace: "set (TrimSpace s) \<subseteq> set s"
  using set_trimRightSpace[of "trimLeftSpace s"] set_trimLeftSpace[of s]
  by (auto simp: TrimSpace_def)

text \<open>A string that begins and ends with an ASCII byte that is no white space is left as it is.\<close>

lemma DecodeRuneInString_ascii:
  "s \<noteq> [] \<Longrightarrow> of_char (hd s) < (0x80::nat) \<Longrightarrow> DecodeRuneInString s = (of_char (hd s), 1)"
  by (cases s) (simp_all add: DecodeRuneInString_def)

lemma trimLeftSpace_keep:
  "s \<noteq> [] \<Longrightarrow> of_char (hd s) < (0x80::nat) \<Longrightarrow> \<not> IsSpace (of_char (hd s))
     \<Longrightarrow> trimLeftSpace s = s"
  by (subst trimLeftSpace.simps) (simp add: DecodeRuneInString_ascii)

lemma trimRightSpace_keep:
  "s \<noteq> [] \<Longrightarrow> of_char (last s) < (0x80::nat) \<Longrightarrow> \<not> IsSpace (of_char (last s))
     \<Longrightarrow> trimRightSpace s = s"
  by (subst trimRightSpace.simps) (simp add: DecodeLastRuneInString_def)

lemma TrimSpace_keep:
  "s \<noteq> [] \<Longrightarrow> of_char (hd s) < (0x80::nat) \<Longrightarrow> \<not> IsSpace (of_char (hd s))
     \<Longrightarrow> of_char (last s) < (0x80::nat) \<Longrightarrow> \<not> IsSpace (of_char (last s))
     \<Longrightarrow> TrimSpace s = s"
  by (simp add: TrimSpace_def trimLeftSpace_keep trimRightSpace_keep)

lemma perlWord_ascii: "perlWord c \<Longrightarrow> of_char c < (0x80::nat)"
  by (auto simp: perlWord_def)

lemma perlWord_not_IsSpace: "perlWord c \<Longrightarrow> \<not> IsSpace (of_char c)"
  by (auto simp: perlWord_def IsSpace_def)

lemma perlWord_not_perlSpace: "perlWord c \<Longrightarrow> \<not> perlSpace c"
  by (auto simp: perlWord_def perlSpace_def)

lemma collapseSpaces_keep: "list_all perlWord s \<Longrightarrow> collapseSpaces b s = s"
  by (induction s arbitrary: b) (auto simp: perlWord_not_perlSpace)

text \<open>The \<open>zap\<close> sanitizer returns a non-empty string of word characters unchanged.\<close>

lemma sanitizeAddress_zap_words:
  assumes "s \<noteq> []" "list_all perlWord s"
  shows "sanitizeAddress_zap s = s"
proof -
  have h: "perlWord (hd s)" "perlWord (last s)"
    using assms by (auto simp: list_all_iff)
  have "trimLeftSpace s = s"
    using assms(1) h(1) by (intro trimLeftSpace_keep perlWord_ascii perlWord_not_IsSpace)
  moreover have "trimRightSpace s = s"
    using assms(1) h(2) by (intro trimRightSpace_keep perlWord_ascii perlWord_not_IsSpace)
  ultimately have "TrimSpace s = s" by (simp add: TrimSpace_def)
  moreover have "filter allowed s = s"
    using assms(2) by (auto simp: list_all_iff allowed_def intro: filter_True)
  ultimately show ?thesis
    using assms(2) by (simp add: sanitizeAddress_zap_def collapseSpaces_keep)
qed

lemma sanitizeAddress_slog_length: "length (sanitizeAddress_slog s) \<le> 200"
  by (simp add: sanitizeAddress_slog_def Let_def)

lemma sanitizeAddress_slog_chars: "set (sanitizeAddress_slog s) \<inter> set specialChars = {}"
proof -
  let ?c = "filter (\<lambda>c. c \<notin> set specialChars) s"
  have "set (sanitizeAddress_slog s) \<subseteq> set (TrimSpace ?c)"
    by (auto simp: sanitizeAddress_slog_def Let_def dest: in_set_takeD)
  also have "\<dots> \<subseteq> set ?c" by (rule set_TrimSpace)
  finally show ?thesis by auto
qed

lemma sanitizeAddress_slog_hash: "sanitizeAddress_slog ''#'' = ''#''"
proof -
  have "filter (\<lambda>c. c \<notin> set specialChars) ''#'' = ''#''"
    by (simp add: specialChars_def)
  moreover have "TrimSpace ''#'' = ''#''"
    by (rule TrimSpace_keep) (simp_all add: IsSpace_def)
  ultimately show ?thesis
    by (simp add: sanitizeAddress_slog_def)
qed

lemma sanitizeAddress_zap_long:
  "sanitizeAddress_zap (replicate 201 (CHR ''a'')) = replicate 201 (CHR ''a'')"
proof -
  have "perlWord (CHR ''a'')" by (simp add: perlWord_def)
  then show ?thesis
    by (intro sanitizeAddress_zap_words) (simp_all add: list_all_iff)
qed

text \<open>
  Claim C3, as the code has it.  The output of the \<open>zap\<close> sanitizer holds only
  characters of the allow-list (and no bound on its length is enforced); the output
  of the \<open>slog\<close> sanitizer is at most 200 bytes long and holds none of the ten
  characters its pattern removes.
\<close>

theorem sanitizeAddress_guarantees:
  "list_all allowed (sanitizeAddress_zap s)
   \<and> length (sanitizeAddress_slog s) \<le> 200
   \<and> list_all (\<lambda>c. c \<notin> set specialChars) (sanitizeAddress_slog s)"
  using sanitizeAddress_slog_length[of s] sanitizeAddress_slog_chars[of s]
  by (auto simp: sanitizeAddress_zap_def Let_def list_all_iff)

text \<open>
  Claim C3, as the specification states it, fails on both revisions: the \<open>zap\<close>
  sanitizer returns 201 letters unchanged, and the \<open>slog\<close> sanitizer keeps the
  character \<open>#\<close>, which is outside the allow-list.
\<close>

theorem sanitizeAddress_counterexample:
  "length (sanitizeAddress_zap (replicate 201 (CHR ''a''))) = 201
   \<and> sanitizeAddress_slog ''#'' = ''#'' \<and> \<not> allowed (CHR ''#'')"
  by (simp add: sanitizeAddress_zap_long sanitizeAddress_slog_hash
      allowed_def perlWord_def perlSpace_def)

section \<open>Properties of the threat detector and the orchestrators\<close>

lemma isSuspicious_panics:
  "isSuspicious MatchString address =
     Panic ''regexp: Compile: error parsing regexp: invalid escape sequence''"
  by (simp add: isSuspicious_def MustCompile_def suspiciousPattern_def)

text \<open>
  In the \<open>slog\<close> revision every address that is not empty after sanitization ends in
  the panic of \<open>regexp.MustCompile\<close>, before the validator is reached.
\<close>

lemma ValidateAddress_slog_panics:
  "sanitizeAddress_slog address \<noteq> [] \<Longrightarrow>
     ValidateAddress_slog MatchString mapLower s address =
       ([], Panic ''regexp: Compile: error parsing regexp: invalid escape sequence'')"
  by (simp add: ValidateAddress_slog_def isSuspicious_panics)

lemma sanitizeAddress_slog_script:
  "sanitizeAddress_slog ''<script>alert(1)</script>'' = ''scriptalert(1)/script''"
proof -
  have "filter (\<lambda>c. c \<notin> set specialChars) ''<script>alert(1)</script>''
          = ''scriptalert(1)/script''"
    by (simp add: specialChars_def)
  moreover have "TrimSpace ''scriptalert(1)/script'' = ''scriptalert(1)/script''"
    by (rule TrimSpace_keep) (simp_all add: IsSpace_def)
  ultimately show ?thesis
    by (simp add: sanitizeAddress_slog_def)
qed

text \<open>
  Claim C4, at the scenario of the specification.  The \<open>slog\<close> service, given
  \<^verbatim>\<open><script>alert(1)</script>\<close>, does not invoke the validator, but it does not return
  the suspicious-input outcome either: it panics.
\<close>

theorem ValidateAddress_slog_script:
  "ValidateAddress_slog MatchString mapLower s ''<script>alert(1)</script>'' =
     ([], Panic ''regexp: Compile: error parsing regexp: invalid escape sequence'')"
  by (rule ValidateAddress_slog_panics) (simp add: sanitizeAddress_slog_script)

text \<open>
  The \<open>zap\<close> service has no threat check: the sanitized text \<open>script\<close> is passed to
  the validator.
\<close>

lemma ValidateAddress_zap_script:
  "fst (ValidateAddress_zap mapLower s ''script'') = [''script'']"
proof -
  have "perlWord (CHR ''s'')" "perlWord (CHR ''c'')" "perlWord (CHR ''r'')"
    "perlWord (CHR ''i'')" "perlWord (CHR ''p'')" "perlWord (CHR ''t'')"
    by (simp_all add: perlWord_def)
  then have "sanitizeAddress_zap ''script'' = ''script''"
    by (intro sanitizeAddress_zap_words) simp_all
  then show ?thesis
    by (simp add: ValidateAddress_zap_def Let_def split: prod.splits)
qed


section \<open>Properties of the geofence evaluator\<close>

subsection \<open>Unit selection\<close>














subsection \<open>Identical points\<close>

lemma calculateDistance_same_point:
  "calculateDistance mapLower lat lng lat lng unit = 0"
  by (simp add: calculateDistance_def Atan2_def)

text \<open>
  Claim C6.  The distance of a point to itself is 0 in every unit, so a point equal
  to the center of the geofence is in range for every non-negative \<open>MaxDistance\<close>:
  in \<open>isWithinGeofence\<close> of the \<open>slog\<close> revision, and in the \<open>InRange\<close> field that
  \<open>ValidateAddress\<close> of the \<open>zap\<close> revision sets for a valid match.
\<close>

theorem same_point_in_range:
  "calculateDistance mapLower lat lng lat lng unit = 0
   \<and> (0 \<le> MaxDistance (Geofence s) \<longrightarrow>
        isWithinGeofence mapLower s (CenterLat (Geofence s)) (CenterLng (Geofence s)))
   \<and> (0 \<le> MaxDistance_zap (config_zap z)
        \<and> sanitizeAddress_zap address \<noteq> [] \<and> sanitizeAddress_zap address \<noteq> '' ''
        \<and> validator_zap z (sanitizeAddress_zap address) = (r, None) \<and> IsValid r
        \<and> Latitude r = CenterLat_zap (config_zap z)
        \<and> Longitude r = CenterLng_zap (config_zap z) \<longrightarrow>
        ValidateAddress_zap mapLower z address =
          ([sanitizeAddress_zap address], Return (r\<lparr>InRange := True\<rparr>, None)))"
  by (simp add: calculateDistance_same_point isWithinGeofence_def ValidateAddress_zap_def Let_def)

lemma bronx_clean: "sanitizeAddress_zap ''Bronx'' = ''Bronx''"
  by (rule sanitizeAddress_zap_words) (simp_all add: perlWord_def)

theorem same_point_in_range_witness:
  "isWithinGeofence (\<lambda>s. s)
     \<lparr>validator_slog = (\<lambda>a. (failed ErrEmptyAddress, None)),
      Geofence = \<lparr>MaxDistance = 0, DistanceUnit = ''km'', CenterLat = 40.8448,
                  CenterLng = - 73.8648\<rparr>\<rparr>
     40.8448 (- 73.8648)
   \<and> ValidateAddress_zap (\<lambda>s. s)
        \<lparr>validator_zap = (\<lambda>a. (\<lparr>IsValid = True, FormattedAddress = a, Latitude = 40.8448,
                                   Longitude = - 73.8648, InRange = False, Error = []\<rparr>, None)),
         config_zap = \<lparr>GoogleMapsAPIKey = ''k'', MaxDistance_zap = 0, DistanceUnit_zap = ''mi'',
                       CenterLat_zap = 40.8448, CenterLng_zap = - 73.8648,
                       Country = ''us'', Locality = ''Bronx''\<rparr>\<rparr>
        ''Bronx''
      = ([''Bronx''],
         Return (\<lparr>IsValid = True, FormattedAddress = ''Bronx'', Latitude = 40.8448,
                   Longitude = - 73.8648, InRange = True, Error = []\<rparr>, None))"
  using same_point_in_range
          [of "\<lambda>s. s" 0 0 "[]"
              "\<lparr>validator_slog = (\<lambda>a. (failed ErrEmptyAddress, None)),
                Geofence = \<lparr>MaxDistance = 0, DistanceUnit = ''km'', CenterLat = 40.8448,
                            CenterLng = - 73.8648\<rparr>\<rparr>"
              "\<lparr>validator_zap = (\<lambda>a. (\<lparr>IsValid = True, FormattedAddress = a, Latitude = 40.8448,
                                   Longitude = - 73.8648, InRange = False, Error = []\<rparr>, None)),
                config_zap = \<lparr>GoogleMapsAPIKey = ''k'', MaxDistance_zap = 0, DistanceUnit_zap = ''mi'',
                       CenterLat_zap = 40.8448, CenterLng_zap = - 73.8648,
                       Country = ''us'', Locality = ''Bronx''\<rparr>\<rparr>"
              "''Bronx''"
              "\<lparr>IsValid = True, FormattedAddress = ''Bronx'', Latitude = 40.8448,
                   Longitude = - 73.8648, InRange = False, Error = []\<rparr>"]
  by (simp add: bronx_clean)

subsection \<open>Monotonicity in the radius\<close>

text \<open>
  Claim C7.  With \<open>d1 \<le> d2\<close>, a point in range under \<open>MaxDistance = d1\<close> is in range
  under \<open>MaxDistance = d2\<close>, for every point, center and unit: in \<open>isWithinGeofence\<close>
  of the \<open>slog\<close> revision, and in the \<open>InRange\<close> field of the result of
  \<open>ValidateAddress\<close> of the \<open>zap\<close> revision.
\<close>

theorem in_range_monotone:
  assumes "d1 \<le> d2"
  shows "(isWithinGeofence mapLower (s\<lparr>Geofence := (Geofence s)\<lparr>MaxDistance := d1\<rparr>\<rparr>) lat lng
            \<longrightarrow> isWithinGeofence mapLower (s\<lparr>Geofence := (Geofence s)\<lparr>MaxDistance := d2\<rparr>\<rparr>) lat lng)
       \<and> (snd (ValidateAddress_zap mapLower
                  (z\<lparr>config_zap := (config_zap z)\<lparr>MaxDistance_zap := d1\<rparr>\<rparr>) address)
              = Return (r1, e) \<and> InRange r1
            \<longrightarrow> (\<exists>r2. snd (ValidateAddress_zap mapLower
                              (z\<lparr>config_zap := (config_zap z)\<lparr>MaxDistance_zap := d2\<rparr>\<rparr>) address)
                          = Return (r2, e) \<and> InRange r2))"
proof -
  have slog: "isWithinGeofence mapLower (s\<lparr>Geofence := (Geofence s)\<lparr>MaxDistance := d2\<rparr>\<rparr>) lat lng"
    if "isWithinGeofence mapLower (s\<lparr>Geofence := (Geofence s)\<lparr>MaxDistance := d1\<rparr>\<rparr>) lat lng"
    using that assms by (simp add: isWithinGeofence_def Let_def)
  have zap: "\<exists>r2. snd (ValidateAddress_zap mapLower
                              (z\<lparr>config_zap := (config_zap z)\<lparr>MaxDistance_zap := d2\<rparr>\<rparr>) address)
                          = Return (r2, e) \<and> InRange r2"
    if "snd (ValidateAddress_zap mapLower
                  (z\<lparr>config_zap := (config_zap z)\<lparr>MaxDistance_zap := d1\<rparr>\<rparr>) address)
              = Return (r1, e)" "InRange r1"
    using that assms
    by (auto simp: ValidateAddress_zap_def Let_def failed_def split: prod.splits if_splits)
  show ?thesis using slog zap by blast
qed

lemma antipode_distance: "calculateDistance (\<lambda>s. s) 0 180 0 0 ''km'' = 6371 * pi"
  by (simp add: calculateDistance_def Atan2_def ToLower_def asciiLower_def DISTANCE_MILES_def
      earthRadiusKm_def)

lemma antipode_clean: "sanitizeAddress_zap ''Quito'' = ''Quito''"
  by (rule sanitizeAddress_zap_words) (simp_all add: perlWord_def)

theorem in_range_monotone_witness:
  "isWithinGeofence (\<lambda>s. s)
     \<lparr>validator_slog = (\<lambda>a. (failed ErrEmptyAddress, None)),
      Geofence = \<lparr>MaxDistance = 30000, DistanceUnit = ''km'', CenterLat = 0, CenterLng = 0\<rparr>\<rparr>
     0 180
   \<and> (\<exists>r2. snd (ValidateAddress_zap (\<lambda>s. s)
        \<lparr>validator_zap = (\<lambda>a. (\<lparr>IsValid = True, FormattedAddress = a, Latitude = 0,
                                   Longitude = 180, InRange = False, Error = []\<rparr>, None)),
         config_zap = \<lparr>GoogleMapsAPIKey = ''k'', MaxDistance_zap = 30000, DistanceUnit_zap = ''km'',
                       CenterLat_zap = 0, CenterLng_zap = 0,
                       Country = ''ec'', Locality = ''Quito''\<rparr>\<rparr>
        ''Quito'') = Return (r2, None) \<and> InRange r2)"
proof -
  let ?s = "\<lparr>validator_slog = (\<lambda>a. (failed ErrEmptyAddress, None)),
      Geofence = \<lparr>MaxDistance = 30000, DistanceUnit = ''km'', CenterLat = 0, CenterLng = 0\<rparr>\<rparr>"
  let ?z = "\<lparr>validator_zap = (\<lambda>a. (\<lparr>IsValid = True, FormattedAddress = a, Latitude = 0,
                                   Longitude = 180, InRange = False, Error = []\<rparr>, None)),
         config_zap = \<lparr>GoogleMapsAPIKey = ''k'', MaxDistance_zap = 30000, DistanceUnit_zap = ''km'',
                       CenterLat_zap = 0, CenterLng_zap = 0,
                       Country = ''ec'', Locality = ''Quito''\<rparr>\<rparr>"
  let ?r = "\<lparr>IsValid = True, FormattedAddress = ''Quito'', Latitude = 0,
                                   Longitude = 180, InRange = True, Error = []\<rparr>"
  have le: "(25484 :: real) \<le> 30000" by simp
  have p: "6371 * pi \<le> 25484" using pi_less_4 by simp
  have h1: "isWithinGeofence (\<lambda>s. s) (?s\<lparr>Geofence := (Geofence ?s)\<lparr>MaxDistance := 25484\<rparr>\<rparr>) 0 180"
    using p by (simp add: isWithinGeofence_def antipode_distance)
  have h2: "snd (ValidateAddress_zap (\<lambda>s. s)
                  (?z\<lparr>config_zap := (config_zap ?z)\<lparr>MaxDistance_zap := 25484\<rparr>\<rparr>) ''Quito'')
              = Return (?r, None) \<and> InRange ?r"
    using p by (simp add: ValidateAddress_zap_def Let_def antipode_clean antipode_distance)
  from in_range_monotone [OF le, of "\<lambda>s. s" ?s 0 180 ?z "''Quito''" ?r None] h1 h2
  show ?thesis by simp
qed

subsection \<open>The square roots stay in their domain\<close>

text \<open>
  Over the real numbers the Haversine term \<open>a\<close> lies between 0 and 1, so that both
  square roots of \<open>calculateDistance\<close> are taken of non-negative numbers and the
  distance is non-negative.  This is a fact of exact arithmetic: it says nothing
  about the rounded \<open>float64\<close> value of \<open>a\<close>.
\<close>

lemma cos_half_cos: "(cos z + 1) / 2 = (cos (z / 2))\<^sup>2" for z :: real
proof -
  have "z = 2 * (z / 2)" by simp
  then have "cos z = cos (2 * (z / 2))" by (rule arg_cong)
  also have "\<dots> = 2 * (cos (z / 2))\<^sup>2 - 1" by (rule cos_double_cos)
  finally show ?thesis by argo
qed

lemma cos_half_sin: "(cos z - 1) / 2 = - ((sin (z / 2))\<^sup>2)" for z :: real
proof -
  have "z = 2 * (z / 2)" by simp
  then have "cos z = cos (2 * (z / 2))" by (rule arg_cong)
  also have "\<dots> = 1 - 2 * (sin (z / 2))\<^sup>2" by (rule cos_double_sin)
  finally show ?thesis by argo
qed

lemma cos_cos_upper: "cos x * cos y \<le> (cos ((y - x) / 2))\<^sup>2" for x y :: real
proof -
  have "cos x * cos y = (cos (y - x) + cos (y + x)) / 2"
    by (simp add: cos_add cos_diff)
  also have "\<dots> \<le> (cos (y - x) + 1) / 2" by simp
  also have "\<dots> = (cos ((y - x) / 2))\<^sup>2" by (rule cos_half_cos)
  finally show ?thesis .
qed

lemma cos_cos_lower: "- ((sin ((y - x) / 2))\<^sup>2) \<le> cos x * cos y" for x y :: real
proof -
  have "- ((sin ((y - x) / 2))\<^sup>2) = (cos (y - x) - 1) / 2" by (rule cos_half_sin[symmetric])
  also have "\<dots> \<le> (cos (y - x) + cos (y + x)) / 2"
    using cos_ge_minus_one[of "y + x"] by simp
  also have "\<dots> = cos x * cos y"
    by (simp add: cos_add cos_diff)
  finally show ?thesis .
qed

lemma haversine_bounds:
  fixes x y d :: real
  defines "a \<equiv> sin ((y - x) / 2) * sin ((y - x) / 2) + cos x * cos y * sin (d / 2) * sin (d / 2)"
  shows "0 \<le> a \<and> a \<le> 1"
proof -
  let ?s = "(sin ((y - x) / 2))\<^sup>2" and ?c = "(cos ((y - x) / 2))\<^sup>2" and ?t = "(sin (d / 2))\<^sup>2"
  have a: "a = ?s + cos x * cos y * ?t"
    by (simp add: a_def power2_eq_square)
  have t: "0 \<le> ?t" "?t \<le> 1" by (simp_all add: abs_square_le_1)
  have sc: "?s + ?c = 1" by simp
  have "cos x * cos y * ?t \<le> ?c * ?t"
    using cos_cos_upper[of x y] t(1) by (rule mult_right_mono)
  also have "\<dots> \<le> ?c * 1"
    using t(2) by (intro mult_left_mono) simp_all
  finally have "cos x * cos y * ?t \<le> ?c" by simp
  then have up: "a \<le> 1" using a sc by linarith
  have "- ?s * 1 \<le> - ?s * ?t"
    using t(2) by (intro mult_left_mono_neg) simp_all
  also have "\<dots> \<le> cos x * cos y * ?t"
    using cos_cos_lower[where x = x and y = y] t(1) by (intro mult_right_mono) simp_all
  finally have "- ?s \<le> cos x * cos y * ?t" by simp
  then have "0 \<le> a" using a by linarith
  then show ?thesis using up by simp
qed

lemma Atan2_nonneg: "0 \<le> y \<Longrightarrow> 0 \<le> x \<Longrightarrow> 0 \<le> Atan2 y x"
  by (auto simp: Atan2_def Let_def)

lemma calculateDistance_nonneg: "0 \<le> calculateDistance mapLower lat1 lng1 lat2 lng2 unit"
proof -
  let ?x = "lat1 * (pi / 180)" and ?y = "lat2 * (pi / 180)" and ?d = "lng2 * (pi / 180) - lng1 * (pi / 180)"
  let ?a = "sin ((?y - ?x) / 2) * sin ((?y - ?x) / 2) + cos ?x * cos ?y * sin (?d / 2) * sin (?d / 2)"
  have "0 \<le> ?a \<and> ?a \<le> 1" by (rule haversine_bounds)
  then have "0 \<le> Atan2 (sqrt ?a) (sqrt (1 - ?a))"
    by (intro Atan2_nonneg) simp_all
  then show ?thesis
    by (simp add: calculateDistance_def Let_def earthRadiusMi_def earthRadiusKm_def)
qed

end
